theory Spec2Isabelle
  imports Main "HOL-Library.Word"
begin

section \<open>Data model of \<^verbatim>\<open>script_interface/PackedVariant.hpp\<close>\<close>

text \<open>
  \<^verbatim>\<open>using ObjectId = std::size_t;\<close> An object handle is known by the address a pointer to
  it holds; an \<^verbatim>\<open>ObjectRef\<close> is a shared pointer, whose \<^verbatim>\<open>get()\<close> is that address. Two
  shared pointers compare equal when their addresses are equal.
\<close>

type_synonym ObjectId = "64 word"

type_synonym ObjectHandle_ptr = "64 word"

datatype ObjectRef = Shared (get: ObjectHandle_ptr)

text \<open>
  A \<^verbatim>\<open>double\<close> is carried by its 64-bit pattern: packing and unpacking only copy it, and
  equality below is equality of the value carried. An \<^verbatim>\<open>int\<close> is only copied as well.
\<close>

type_synonym double = "64 word"

text \<open>
  Modelled from the spec: the live \<^verbatim>\<open>Variant\<close> of \<^verbatim>\<open>Variant.hpp\<close>, a header that is
  not among the sources. Section 3 of the specification lists its shapes, and the
  \<^verbatim>\<open>PackedVariant\<close> of the source mirrors them with \<^verbatim>\<open>ObjectId\<close> in the place of
  \<^verbatim>\<open>ObjectRef\<close>.
\<close>

datatype Variant =
    VNone
  | VBool bool
  | VInt int
  | VDouble double
  | VString string
  | VIntVector "int list"
  | VDoubleVector "double list"
  | VObjectRef ObjectRef
  | VVector "Variant list"
  | VVector2d "double \<times> double"
  | VVector3d "double \<times> double \<times> double"
  | VVector4d "double \<times> double \<times> double \<times> double"

datatype PackedVariant =
    PNone
  | PBool bool
  | PInt int
  | PDouble double
  | PString string
  | PIntVector "int list"
  | PDoubleVector "double list"
  | PObjectId ObjectId
  | PVector "PackedVariant list"
  | PVector2d "double \<times> double"
  | PVector3d "double \<times> double \<times> double"
  | PVector4d "double \<times> double \<times> double \<times> double"

type_synonym PackedMap = "(string \<times> PackedVariant) list"

section \<open>Object identifiers\<close>

text \<open>
  Modelled from the spec: \<^verbatim>\<open>std::hash<const ObjectHandle *>\<close>, the hash of a pointer in
  the C++ standard library, which the sources call and do not define. Section 4.2 of the
  specification describes the identifier it yields as a deterministic, injective mapping
  from the address of the object to an integer; the model takes the address itself, read
  as a \<^verbatim>\<open>std::size_t\<close>.
\<close>

definition std_hash :: "ObjectHandle_ptr \<Rightarrow> ObjectId" where
  "std_hash p = p"

definition object_id :: "ObjectHandle_ptr \<Rightarrow> ObjectId" where
  "object_id p = std_hash p"

definition object_id_ref :: "ObjectRef \<Rightarrow> ObjectId" where
  "object_id_ref p = object_id (get p)"

section \<open>The pack visitor\<close>

text \<open>
  \<^verbatim>\<open>std::unordered_map<ObjectId, ObjectRef>\<close> is a partial map. The visitor's only member
  is the table \<^verbatim>\<open>m_objects\<close>; it is \<^verbatim>\<open>mutable\<close>, so a call of the visitor returns the
  packed value together with the visitor as the call leaves it.
\<close>

type_synonym object_table = "ObjectId \<rightharpoonup> ObjectRef"

record PackVisitor =
  m_objects :: object_table

definition objects :: "PackVisitor \<Rightarrow> object_table" where
  "objects vis = m_objects vis"

text \<open>
  \<^verbatim>\<open>PackVisitor::operator()\<close>. A reference is entered in the table under its id and
  replaced by the id; every other leaf is forwarded as it is.

  Modelled from the spec: the case of a sequence of Variants, which the visitor inherits
  from \<^verbatim>\<open>recursive_visitor\<close> of \<^verbatim>\<open>Variant.hpp\<close>: the same visitor is applied to the
  elements one after the other, in order.
\<close>

fun PackVisitor_call :: "PackVisitor \<Rightarrow> Variant \<Rightarrow> PackedVariant \<times> PackVisitor"
  and PackVisitor_vec :: "PackVisitor \<Rightarrow> Variant list \<Rightarrow> PackedVariant list \<times> PackVisitor"
  where
  "PackVisitor_call vis (VObjectRef so_ptr) =
     (let oid = object_id_ref so_ptr
      in (PObjectId oid, vis\<lparr>m_objects := (m_objects vis)(oid \<mapsto> so_ptr)\<rparr>))"
| "PackVisitor_call vis (VVector vec) =
     (let (ret, vis') = PackVisitor_vec vis vec in (PVector ret, vis'))"
| "PackVisitor_call vis VNone = (PNone, vis)"
| "PackVisitor_call vis (VBool b) = (PBool b, vis)"
| "PackVisitor_call vis (VInt i) = (PInt i, vis)"
| "PackVisitor_call vis (VDouble d) = (PDouble d, vis)"
| "PackVisitor_call vis (VString s) = (PString s, vis)"
| "PackVisitor_call vis (VIntVector xs) = (PIntVector xs, vis)"
| "PackVisitor_call vis (VDoubleVector xs) = (PDoubleVector xs, vis)"
| "PackVisitor_call vis (VVector2d x) = (PVector2d x, vis)"
| "PackVisitor_call vis (VVector3d x) = (PVector3d x, vis)"
| "PackVisitor_call vis (VVector4d x) = (PVector4d x, vis)"
| "PackVisitor_vec vis [] = ([], vis)"
| "PackVisitor_vec vis (v # vs) =
     (let (w, vis') = PackVisitor_call vis v;
          (ws, vis'') = PackVisitor_vec vis' vs
      in (w # ws, vis''))"

section \<open>The unpack visitor\<close>

text \<open>
  \<^verbatim>\<open>objects.at(id)\<close> throws \<^verbatim>\<open>std::out_of_range\<close> when the table has no entry for the
  id: the condition the specification calls \<^verbatim>\<open>UnknownObjectId\<close>.
\<close>

datatype error = UnknownObjectId

text \<open>
  \<^verbatim>\<open>UnpackVisitor::operator()\<close>, with the table the visitor was constructed on. An
  exception thrown at an element of a sequence leaves the sequence unfinished and
  reaches the caller.
\<close>

fun UnpackVisitor_call :: "object_table \<Rightarrow> PackedVariant \<Rightarrow> error + Variant"
  and UnpackVisitor_vec :: "object_table \<Rightarrow> PackedVariant list \<Rightarrow> error + Variant list"
  where
  "UnpackVisitor_call tab (PObjectId oid) =
     (case tab oid of None \<Rightarrow> Inl UnknownObjectId | Some p \<Rightarrow> Inr (VObjectRef p))"
| "UnpackVisitor_call tab (PVector vec) =
     (case UnpackVisitor_vec tab vec of Inl e \<Rightarrow> Inl e | Inr ret \<Rightarrow> Inr (VVector ret))"
| "UnpackVisitor_call tab PNone = Inr VNone"
| "UnpackVisitor_call tab (PBool b) = Inr (VBool b)"
| "UnpackVisitor_call tab (PInt i) = Inr (VInt i)"
| "UnpackVisitor_call tab (PDouble d) = Inr (VDouble d)"
| "UnpackVisitor_call tab (PString s) = Inr (VString s)"
| "UnpackVisitor_call tab (PIntVector xs) = Inr (VIntVector xs)"
| "UnpackVisitor_call tab (PDoubleVector xs) = Inr (VDoubleVector xs)"
| "UnpackVisitor_call tab (PVector2d x) = Inr (VVector2d x)"
| "UnpackVisitor_call tab (PVector3d x) = Inr (VVector3d x)"
| "UnpackVisitor_call tab (PVector4d x) = Inr (VVector4d x)"
| "UnpackVisitor_vec tab [] = Inr []"
| "UnpackVisitor_vec tab (w # ws) =
     (case UnpackVisitor_call tab w of
        Inl e \<Rightarrow> Inl e
      | Inr v \<Rightarrow>
          (case UnpackVisitor_vec tab ws of Inl e \<Rightarrow> Inl e | Inr vs \<Rightarrow> Inr (v # vs)))"

section \<open>The free functions\<close>

text \<open>
  \<^verbatim>\<open>pack(const Variant &)\<close> applies a temporary \<^verbatim>\<open>PackVisitor{}\<close> and returns the packed
  value; \<^verbatim>\<open>unpack(const PackedVariant &, objects)\<close> applies an \<^verbatim>\<open>UnpackVisitor\<close> on the
  table it is given.
\<close>

definition pack :: "Variant \<Rightarrow> PackedVariant" where
  "pack v = fst (PackVisitor_call \<lparr>m_objects = Map.empty\<rparr> v)"

definition unpack :: "PackedVariant \<Rightarrow> object_table \<Rightarrow> error + Variant" where
  "unpack v objs = UnpackVisitor_call objs v"

section \<open>Maps of named values\<close>

text \<open>
  Modelled from the spec: \<^verbatim>\<open>VariantMap\<close> of \<^verbatim>\<open>Variant.hpp\<close>, the mapping of names to
  Variants with unique keys, for which insertion order is irrelevant (an unordered
  associative container). A value of it is given by its entries in the order an iteration
  visits them. Where an iteration meets an entry that has just been inserted is left to
  the container; the model takes it as a parameter \<open>slot\<close>, which reads the keys present
  and the new key and answers the position of the new entry.
\<close>

type_synonym VariantMap = "(string \<times> Variant) list"

type_synonym slot = "string list \<Rightarrow> string \<Rightarrow> nat"

text \<open>
  \<^verbatim>\<open>ret.insert(hint, value)\<close>, as \<^verbatim>\<open>std::inserter(ret, ret.end())\<close> calls it: a key that is
  present keeps its entry, a new key gets an entry.
\<close>

definition insert_entry :: "slot \<Rightarrow> VariantMap \<Rightarrow> string \<times> Variant \<Rightarrow> VariantMap" where
  "insert_entry sl ret kv =
     (if fst kv \<in> set (map fst ret) then ret
      else (let i = sl (map fst ret) (fst kv) in take i ret @ kv # drop i ret))"

text \<open>A container that puts every new entry at the head of its iteration order.\<close>

definition front_slot :: slot where
  "front_slot ks k = 0"

text \<open>
  \<^verbatim>\<open>pack(const VariantMap &)\<close>: one pair for each entry, in the order of the iteration over
  the map, every value packed by a call of \<^verbatim>\<open>pack\<close> of its own.
\<close>

definition pack_map :: "VariantMap \<Rightarrow> PackedMap" where
  "pack_map v = map (\<lambda>kv. (fst kv, pack (snd kv))) v"

text \<open>
  \<^verbatim>\<open>unpack(const PackedMap &, objects)\<close>: the pairs are unpacked in order and inserted into
  a map that starts empty. An exception of \<^verbatim>\<open>unpack\<close> ends the loop and reaches the caller.
\<close>

fun unpack_entries :: "slot \<Rightarrow> object_table \<Rightarrow> PackedMap \<Rightarrow> VariantMap \<Rightarrow> error + VariantMap" where
  "unpack_entries sl objs [] ret = Inr ret"
| "unpack_entries sl objs (kv # rest) ret =
     (case unpack (snd kv) objs of
        Inl e \<Rightarrow> Inl e
      | Inr x \<Rightarrow> unpack_entries sl objs rest (insert_entry sl ret (fst kv, x)))"

definition unpack_map :: "slot \<Rightarrow> PackedMap \<Rightarrow> object_table \<Rightarrow> error + VariantMap" where
  "unpack_map sl v objs = unpack_entries sl objs v []"

section \<open>Lifetime of a pack visitor\<close>

text \<open>
  The table is a private member of the visitor and \<^verbatim>\<open>objects()\<close> is a member function: the
  table of a pack can be read for as long as the visitor that packed exists. The visitors
  that exist are kept as a list, the newest first.

  \<^verbatim>\<open>pack_call\<close> is the call \<^verbatim>\<open>pack(v)\<close> of the free function, with the visitors around it: it
  constructs the temporary \<^verbatim>\<open>PackVisitor{}\<close> and applies it; the temporary exists, with its
  table, until the \<^verbatim>\<open>return\<close> statement has been evaluated, and is destroyed then.
  \<^verbatim>\<open>pack_map_call\<close> is the call of \<^verbatim>\<open>pack(const VariantMap &)\<close>, which calls \<^verbatim>\<open>pack\<close> for every
  entry.
\<close>

type_synonym visitors = "PackVisitor list"

definition pack_call :: "Variant \<Rightarrow> visitors \<Rightarrow> PackedVariant \<times> visitors" where
  "pack_call v st =
     (let tmp = \<lparr>m_objects = Map.empty\<rparr>;
          (ret, tmp') = PackVisitor_call tmp v;
          st' = tmp' # st
      in (ret, tl st'))"

fun pack_map_call :: "VariantMap \<Rightarrow> visitors \<Rightarrow> PackedMap \<times> visitors" where
  "pack_map_call [] st = ([], st)"
| "pack_map_call (kv # rest) st =
     (let (w, st1) = pack_call (snd kv) st;
          (ws, st2) = pack_map_call rest st1
      in ((fst kv, w) # ws, st2))"

section \<open>The histogram of \<^verbatim>\<open>CylindricalVelocityProfile::evaluate\<close>\<close>

text \<open>
  \<^verbatim>\<open>evaluate\<close> fills a histogram from the particles and then divides every bin by its
  count. The histogram class and the coordinate transformations are not among the
  sources: the model starts at the two vectors the histogram hands out,
  \<^verbatim>\<open>get_histogram()\<close> and \<^verbatim>\<open>get_tot_count()\<close>. A count is a \<^verbatim>\<open>std::size_t\<close> that is only
  compared with zero and converted. The division of a \<^verbatim>\<open>double\<close> by the converted count is
  the parameter \<open>fdiv\<close>. A read of \<^verbatim>\<open>tot_count\<close> past its end has no defined behaviour and
  is the value \<open>None\<close>.
\<close>

function evaluate_loop ::
  "(double \<Rightarrow> nat \<Rightarrow> double) \<Rightarrow> nat list \<Rightarrow> nat \<Rightarrow> double list \<Rightarrow> double list option" where
  "evaluate_loop fdiv tot_count ind hist_tmp =
     (if ind < length hist_tmp then
        (if length tot_count \<le> ind then None
         else if tot_count ! ind > 0 then
           evaluate_loop fdiv tot_count (ind + 1)
             (hist_tmp[ind := fdiv (hist_tmp ! ind) (tot_count ! ind)])
         else evaluate_loop fdiv tot_count (ind + 1) hist_tmp)
      else Some hist_tmp)"
  by pat_completeness auto
termination
  by (relation "measure (\<lambda>(fdiv, tot_count, ind, hist_tmp). length hist_tmp - ind)") auto

declare evaluate_loop.simps [simp del]

definition evaluate ::
  "(double \<Rightarrow> nat \<Rightarrow> double) \<Rightarrow> double list \<Rightarrow> nat list \<Rightarrow> double list option" where
  "evaluate fdiv hist_tmp tot_count = evaluate_loop fdiv tot_count 0 hist_tmp"

section \<open>Vocabulary of the properties\<close>

text \<open>
  The references of a live value and the ids of a packed value, in the order the
  visitors meet them.
\<close>

fun refs_of :: "Variant \<Rightarrow> ObjectRef list"
  and refs_of_vec :: "Variant list \<Rightarrow> ObjectRef list"
  where
  "refs_of (VObjectRef p) = [p]"
| "refs_of (VVector vec) = refs_of_vec vec"
| "refs_of VNone = []"
| "refs_of (VBool b) = []"
| "refs_of (VInt i) = []"
| "refs_of (VDouble d) = []"
| "refs_of (VString s) = []"
| "refs_of (VIntVector xs) = []"
| "refs_of (VDoubleVector xs) = []"
| "refs_of (VVector2d x) = []"
| "refs_of (VVector3d x) = []"
| "refs_of (VVector4d x) = []"
| "refs_of_vec [] = []"
| "refs_of_vec (v # vs) = refs_of v @ refs_of_vec vs"

fun ids_of :: "PackedVariant \<Rightarrow> ObjectId list"
  and ids_of_vec :: "PackedVariant list \<Rightarrow> ObjectId list"
  where
  "ids_of (PObjectId oid) = [oid]"
| "ids_of (PVector vec) = ids_of_vec vec"
| "ids_of PNone = []"
| "ids_of (PBool b) = []"
| "ids_of (PInt i) = []"
| "ids_of (PDouble d) = []"
| "ids_of (PString s) = []"
| "ids_of (PIntVector xs) = []"
| "ids_of (PDoubleVector xs) = []"
| "ids_of (PVector2d x) = []"
| "ids_of (PVector3d x) = []"
| "ids_of (PVector4d x) = []"
| "ids_of_vec [] = []"
| "ids_of_vec (w # ws) = ids_of w @ ids_of_vec ws"

text \<open>The table a visitor holds after it has met the references \<open>ps\<close>, in that order.\<close>

fun record_refs :: "ObjectRef list \<Rightarrow> object_table \<Rightarrow> object_table" where
  "record_refs [] tab = tab"
| "record_refs (p # ps) tab = record_refs ps (tab(object_id_ref p \<mapsto> p))"

section \<open>Properties of the visitors\<close>

lemma object_id_ref_eq: "object_id_ref p = get p"
  by (simp add: object_id_ref_def object_id_def std_hash_def)

lemma object_id_ref_inj: "object_id_ref p = object_id_ref q \<longleftrightarrow> p = q"
  by (cases p, cases q) (simp add: object_id_ref_eq)

lemma record_refs_append: "record_refs (ps @ qs) tab = record_refs qs (record_refs ps tab)"
  by (induction ps arbitrary: tab) simp_all

lemma PackVisitor_table:
  "m_objects (snd (PackVisitor_call vis v)) = record_refs (refs_of v) (m_objects vis)"
  "m_objects (snd (PackVisitor_vec vis vs)) = record_refs (refs_of_vec vs) (m_objects vis)"
  by (induction vis v and vis vs rule: PackVisitor_call_PackVisitor_vec.induct)
     (auto simp add: Let_def record_refs_append split: prod.splits)

lemma PackVisitor_ids:
  "ids_of (fst (PackVisitor_call vis v)) = map object_id_ref (refs_of v)"
  "ids_of_vec (fst (PackVisitor_vec vis vs)) = map object_id_ref (refs_of_vec vs)"
  by (induction vis v and vis vs rule: PackVisitor_call_PackVisitor_vec.induct)
     (auto simp add: Let_def split: prod.splits)

lemma PackVisitor_fst_any:
  "fst (PackVisitor_call vis v) = fst (PackVisitor_call vis0 v)"
  "fst (PackVisitor_vec vis vs) = fst (PackVisitor_vec vis0 vs)"
proof (induction vis v and vis vs arbitrary: vis0 and vis0 rule: PackVisitor_call_PackVisitor_vec.induct)
  case (2 vis vec)
  then show ?case by (simp add: split_beta)
next
  case (14 vis v vs)
  have a: "fst (PackVisitor_call vis v) = fst (PackVisitor_call vis0 v)"
    by (rule "14.IH"(1))
  have b: "fst (PackVisitor_vec (snd (PackVisitor_call vis v)) vs) =
           fst (PackVisitor_vec (snd (PackVisitor_call vis0 v)) vs)"
    by (rule "14.IH"(2) [OF refl]) (rule prod.collapse)
  show ?case by (simp add: split_beta a b)
qed (simp_all add: Let_def)

lemma PackVisitor_snd:
  "snd (PackVisitor_call vis v) = \<lparr>m_objects = record_refs (refs_of v) (m_objects vis)\<rparr>"
  "snd (PackVisitor_vec vis vs) = \<lparr>m_objects = record_refs (refs_of_vec vs) (m_objects vis)\<rparr>"
  by (rule PackVisitor.equality; simp add: PackVisitor_table)+

lemma record_refs_other:
  "k \<notin> object_id_ref ` set ps \<Longrightarrow> record_refs ps tab k = tab k"
  by (induction ps arbitrary: tab) auto

lemma record_refs_member:
  "p \<in> set ps \<Longrightarrow> record_refs ps tab (object_id_ref p) = Some p"
proof (induction ps arbitrary: tab)
  case Nil
  then show ?case by simp
next
  case (Cons q ps)
  show ?case
  proof (cases "p \<in> set ps")
    case True
    then show ?thesis by (simp add: Cons.IH)
  next
    case False
    with Cons.prems have "p = q" by simp
    moreover from False have "object_id_ref p \<notin> object_id_ref ` set ps"
      by (auto simp: object_id_ref_inj)
    ultimately show ?thesis by (simp add: record_refs_other)
  qed
qed

lemma record_refs_override:
  "record_refs ps tab = tab ++ record_refs ps Map.empty"
proof (rule ext)
  fix k
  show "record_refs ps tab k = (tab ++ record_refs ps Map.empty) k"
  proof (cases "k \<in> object_id_ref ` set ps")
    case True
    then obtain p where "p \<in> set ps" "k = object_id_ref p" by auto
    then show ?thesis by (simp add: record_refs_member map_add_def)
  next
    case False
    then show ?thesis by (simp add: record_refs_other map_add_def)
  qed
qed

lemma unpack_pack_visit:
  "(\<forall>p \<in> set (refs_of v). tab (object_id_ref p) = Some p) \<Longrightarrow>
     UnpackVisitor_call tab (fst (PackVisitor_call vis v)) = Inr v"
  "(\<forall>p \<in> set (refs_of_vec vs). tab (object_id_ref p) = Some p) \<Longrightarrow>
     UnpackVisitor_vec tab (fst (PackVisitor_vec vis vs)) = Inr vs"
  by (induction vis v and vis vs rule: PackVisitor_call_PackVisitor_vec.induct)
     (auto simp add: Let_def split: prod.splits)

lemma error_eq: "(e :: error) = UnknownObjectId"
  by (cases e) simp

lemma unpack_missing:
  "k \<in> set (ids_of w) \<Longrightarrow> tab k = None \<Longrightarrow> UnpackVisitor_call tab w = Inl UnknownObjectId"
  "k \<in> set (ids_of_vec ws) \<Longrightarrow> tab k = None \<Longrightarrow> UnpackVisitor_vec tab ws = Inl UnknownObjectId"
  by (induction tab w and tab ws rule: UnpackVisitor_call_UnpackVisitor_vec.induct)
     (auto simp: error_eq split: sum.splits)

lemma unpack_total:
  "set (ids_of w) \<subseteq> dom tab \<Longrightarrow> \<exists>v. UnpackVisitor_call tab w = Inr v"
  "set (ids_of_vec ws) \<subseteq> dom tab \<Longrightarrow> \<exists>vs. UnpackVisitor_vec tab ws = Inr vs"
  by (induction tab w and tab ws rule: UnpackVisitor_call_UnpackVisitor_vec.induct)
     (auto split: sum.splits option.splits)

lemma objects_after_call:
  "objects (snd (PackVisitor_call vis v)) = record_refs (refs_of v) (objects vis)"
  by (simp add: objects_def PackVisitor_table)

lemma pack_eq_fst: "fst (PackVisitor_call vis v) = pack v"
  unfolding pack_def by (rule PackVisitor_fst_any(1))

lemma round_trip_session:
  "unpack (fst (PackVisitor_call vis v)) (objects (snd (PackVisitor_call vis v))) = Inr v"
  unfolding unpack_def
  by (rule unpack_pack_visit(1)) (simp add: objects_after_call record_refs_member)

lemma unpack_entries_missing:
  "(key, w) \<in> set m \<Longrightarrow> k \<in> set (ids_of w) \<Longrightarrow> objs k = None \<Longrightarrow>
     unpack_entries sl objs m ret = Inl UnknownObjectId"
proof (induction m arbitrary: ret)
  case Nil
  then show ?case by simp
next
  case (Cons kv m)
  show ?case
  proof (cases "unpack (snd kv) objs")
    case (Inl e)
    then show ?thesis by (simp add: error_eq)
  next
    case (Inr x)
    with Cons.prems unpack_missing(1) [of k "snd kv" objs] have "(key, w) \<in> set m"
      by (auto simp: unpack_def)
    with Cons.IH Cons.prems Inr show ?thesis by simp
  qed
qed

section \<open>Properties of the maps, of the visitors' lifetime and of the histogram\<close>

lemma keys_insert_entry:
  "fst ` set (insert_entry sl ret kv) = insert (fst kv) (fst ` set ret)"
proof (cases "fst kv \<in> fst ` set ret")
  case True
  then show ?thesis by (auto simp: insert_entry_def)
next
  case False
  define i where "i = sl (map fst ret) (fst kv)"
  have u: "set (take i ret) \<union> set (drop i ret) = set ret"
    by (metis append_take_drop_id set_append)
  from False show ?thesis
    by (simp add: insert_entry_def Let_def i_def [symmetric] u)
qed

lemma distinct_insert_entry:
  assumes "distinct (map fst ret)"
  shows "distinct (map fst (insert_entry sl ret kv))"
proof (cases "fst kv \<in> fst ` set ret")
  case True
  with assms show ?thesis by (simp add: insert_entry_def)
next
  case False
  define i where "i = sl (map fst ret) (fst kv)"
  have split: "map fst ret = map fst (take i ret) @ map fst (drop i ret)"
    by (metis append_take_drop_id map_append)
  from assms split have d: "distinct (map fst (take i ret) @ map fst (drop i ret))"
    by simp
  from False split have n: "fst kv \<notin> set (map fst (take i ret) @ map fst (drop i ret))"
    by (metis list.set_map)
  from d n have "distinct (map fst (take i ret) @ fst kv # map fst (drop i ret))"
    by auto
  with False show ?thesis
    by (simp add: insert_entry_def Let_def i_def)
qed

lemma unpack_entries_keys:
  assumes "\<forall>kv \<in> set m. set (ids_of (snd kv)) \<subseteq> dom objs"
  shows "\<exists>r. unpack_entries sl objs m ret = Inr r \<and>
           fst ` set r = fst ` set ret \<union> fst ` set m \<and>
           (distinct (map fst ret) \<longrightarrow> distinct (map fst r))"
  using assms
proof (induction m arbitrary: ret)
  case Nil
  show ?case by simp
next
  case (Cons kv m)
  from Cons.prems have "set (ids_of (snd kv)) \<subseteq> dom objs" by simp
  then obtain x where x: "unpack (snd kv) objs = Inr x"
    using unpack_total(1) [of "snd kv" objs] by (auto simp: unpack_def)
  from Cons.prems have "\<forall>kv \<in> set m. set (ids_of (snd kv)) \<subseteq> dom objs" by simp
  from Cons.IH [OF this, of "insert_entry sl ret (fst kv, x)"]
  obtain r where r: "unpack_entries sl objs m (insert_entry sl ret (fst kv, x)) = Inr r"
    "fst ` set r = fst ` set (insert_entry sl ret (fst kv, x)) \<union> fst ` set m"
    "distinct (map fst (insert_entry sl ret (fst kv, x))) \<longrightarrow> distinct (map fst r)"
    by blast
  from r(2) have "fst ` set r = fst ` set ret \<union> fst ` set (kv # m)"
    by (simp add: keys_insert_entry)
  moreover from r(3) have "distinct (map fst ret) \<longrightarrow> distinct (map fst r)"
    by (simp add: distinct_insert_entry)
  ultimately show ?case using x r(1) by simp
qed

lemma insert_entry_front:
  "insert_entry front_slot ret kv = (if fst kv \<in> fst ` set ret then ret else kv # ret)"
  by (simp add: insert_entry_def front_slot_def)

lemma pack_call_eq: "pack_call v st = (pack v, st)"
  by (simp add: pack_call_def split_beta pack_eq_fst)

lemma pack_map_call_eq: "pack_map_call m st = (pack_map m, st)"
  by (induction m arbitrary: st) (simp_all add: pack_call_eq pack_map_def)

lemma evaluate_loop_eq:
  "ind \<le> length hist_tmp \<Longrightarrow> length tot_count = length hist_tmp \<Longrightarrow>
   evaluate_loop fdiv tot_count ind hist_tmp =
     Some (take ind hist_tmp @
           map (\<lambda>(x, c). if 0 < c then fdiv x c else x) (zip (drop ind hist_tmp) (drop ind tot_count)))"
proof (induction fdiv tot_count ind hist_tmp rule: evaluate_loop.induct)
  case (1 fdiv tot_count ind hist_tmp)
  show ?case
  proof (cases "ind < length hist_tmp")
    case False
    with "1.prems" show ?thesis by (subst evaluate_loop.simps) simp
  next
    case True
    with "1.prems" have lt: "ind < length tot_count" by simp
    have dh: "drop ind hist_tmp = hist_tmp ! ind # drop (Suc ind) hist_tmp"
      using True by (simp add: Cons_nth_drop_Suc)
    have dt: "drop ind tot_count = tot_count ! ind # drop (Suc ind) tot_count"
      using lt by (simp add: Cons_nth_drop_Suc)
    show ?thesis
    proof (cases "0 < tot_count ! ind")
      case pos: True
      let ?h = "hist_tmp[ind := fdiv (hist_tmp ! ind) (tot_count ! ind)]"
      have "evaluate_loop fdiv tot_count ind hist_tmp = evaluate_loop fdiv tot_count (ind + 1) ?h"
        using True lt pos by (subst evaluate_loop.simps) simp
      also have "\<dots> = Some (take (ind + 1) ?h @
           map (\<lambda>(x, c). if 0 < c then fdiv x c else x) (zip (drop (ind + 1) ?h) (drop (ind + 1) tot_count)))"
        using True lt pos "1.prems" by (intro "1.IH"(1)) simp_all
      also have "take (ind + 1) ?h = take ind hist_tmp @ [fdiv (hist_tmp ! ind) (tot_count ! ind)]"
        using True by (simp add: take_Suc_conv_app_nth)
      also have "drop (ind + 1) ?h = drop (Suc ind) hist_tmp"
        by simp
      finally show ?thesis using pos by (simp add: dh dt)
    next
      case zero: False
      have "evaluate_loop fdiv tot_count ind hist_tmp = evaluate_loop fdiv tot_count (ind + 1) hist_tmp"
        using True lt zero by (subst evaluate_loop.simps) simp
      also have "\<dots> = Some (take (ind + 1) hist_tmp @
           map (\<lambda>(x, c). if 0 < c then fdiv x c else x) (zip (drop (ind + 1) hist_tmp) (drop (ind + 1) tot_count)))"
        using True lt zero "1.prems" by (intro "1.IH"(2)) simp_all
      also have "take (ind + 1) hist_tmp = take ind hist_tmp @ [hist_tmp ! ind]"
        using True by (simp add: take_Suc_conv_app_nth)
      finally show ?thesis using zero by (simp add: dh dt)
    qed
  qed
qed

section \<open>The claims\<close>

text \<open>
  C1. Round trip. Whatever the visitor holds before, unpacking the value it packs with
  the table it holds afterwards gives back the live value, its references being the
  same objects as before; and a value without references is given back by \<^verbatim>\<open>unpack\<close>
  from what \<^verbatim>\<open>pack\<close> returns with the empty table.
\<close>

theorem pack_unpack_round_trip:
  "(\<exists>v'. unpack (fst (PackVisitor_call vis v)) (objects (snd (PackVisitor_call vis v))) = Inr v' \<and>
         v' = v \<and> map get (refs_of v') = map get (refs_of v)) \<and>
   (refs_of v = [] \<longrightarrow> unpack (pack v) Map.empty = Inr v)"
proof (intro conjI impI)
  show "\<exists>v'. unpack (fst (PackVisitor_call vis v)) (objects (snd (PackVisitor_call vis v))) = Inr v' \<and>
         v' = v \<and> map get (refs_of v') = map get (refs_of v)"
    by (simp add: round_trip_session)
next
  assume "refs_of v = []"
  then show "unpack (pack v) Map.empty = Inr v"
    unfolding unpack_def pack_def by (intro unpack_pack_visit(1)) simp
qed

theorem pack_unpack_round_trip_witness:
  "unpack (fst (PackVisitor_call \<lparr>m_objects = Map.empty\<rparr>
             (VVector [VObjectRef (Shared 7), VInt 1, VVector [VObjectRef (Shared 7), VObjectRef (Shared 9)]])))
          (objects (snd (PackVisitor_call \<lparr>m_objects = Map.empty\<rparr>
             (VVector [VObjectRef (Shared 7), VInt 1, VVector [VObjectRef (Shared 7), VObjectRef (Shared 9)]]))))
     = Inr (VVector [VObjectRef (Shared 7), VInt 1, VVector [VObjectRef (Shared 7), VObjectRef (Shared 9)]]) \<and>
   refs_of (VVector [VInt 1, VString ''x'', VVector2d (3, 4)]) = [] \<and>
   unpack (pack (VVector [VInt 1, VString ''x'', VVector2d (3, 4)])) Map.empty
     = Inr (VVector [VInt 1, VString ''x'', VVector2d (3, 4)])"
  using pack_unpack_round_trip [of "\<lparr>m_objects = Map.empty\<rparr>"
      "VVector [VObjectRef (Shared 7), VInt 1, VVector [VObjectRef (Shared 7), VObjectRef (Shared 9)]]"]
    pack_unpack_round_trip [of "\<lparr>m_objects = Map.empty\<rparr>" "VVector [VInt 1, VString ''x'', VVector2d (3, 4)]"]
  by simp

text \<open>
  C2. Shared references. When the occurrences \<open>i\<close> and \<open>j\<close> of a reference in a live value
  are the same object, one visitor packs both to the same id, the id of that object, under
  which its table holds the object; and unpacking with the table of that visitor gives a
  value whose occurrences \<open>i\<close> and \<open>j\<close> are again that object, so the same as each other.
\<close>

theorem shared_reference_preserved:
  assumes "i < length (refs_of v)" and "j < length (refs_of v)"
    and "refs_of v ! i = refs_of v ! j"
  shows "ids_of (fst (PackVisitor_call vis v)) ! i = ids_of (fst (PackVisitor_call vis v)) ! j \<and>
         ids_of (fst (PackVisitor_call vis v)) ! i = object_id_ref (refs_of v ! i) \<and>
         objects (snd (PackVisitor_call vis v)) (ids_of (fst (PackVisitor_call vis v)) ! i) =
           Some (refs_of v ! i) \<and>
         (\<exists>v'. unpack (fst (PackVisitor_call vis v)) (objects (snd (PackVisitor_call vis v))) = Inr v' \<and>
            length (refs_of v') = length (refs_of v) \<and>
            refs_of v' ! i = refs_of v ! i \<and> refs_of v' ! j = refs_of v ! j \<and>
            refs_of v' ! i = refs_of v' ! j)"
proof (intro conjI)
  show "ids_of (fst (PackVisitor_call vis v)) ! i = ids_of (fst (PackVisitor_call vis v)) ! j"
    using assms by (simp add: PackVisitor_ids)
  show id_i: "ids_of (fst (PackVisitor_call vis v)) ! i = object_id_ref (refs_of v ! i)"
    using assms(1) by (simp add: PackVisitor_ids)
  from assms(1) have "refs_of v ! i \<in> set (refs_of v)"
    by (rule nth_mem)
  then have "record_refs (refs_of v) (objects vis) (object_id_ref (refs_of v ! i)) = Some (refs_of v ! i)"
    by (rule record_refs_member)
  then show "objects (snd (PackVisitor_call vis v)) (ids_of (fst (PackVisitor_call vis v)) ! i) =
           Some (refs_of v ! i)"
    by (simp add: id_i objects_after_call)
  show "\<exists>v'. unpack (fst (PackVisitor_call vis v)) (objects (snd (PackVisitor_call vis v))) = Inr v' \<and>
            length (refs_of v') = length (refs_of v) \<and>
            refs_of v' ! i = refs_of v ! i \<and> refs_of v' ! j = refs_of v ! j \<and>
            refs_of v' ! i = refs_of v' ! j"
    using assms(3) by (simp add: round_trip_session)
qed

theorem shared_reference_preserved_witness:
  "(0::nat) < length (refs_of (VVector [VObjectRef (Shared 7), VObjectRef (Shared 9), VObjectRef (Shared 7)])) \<and>
   (2::nat) < length (refs_of (VVector [VObjectRef (Shared 7), VObjectRef (Shared 9), VObjectRef (Shared 7)])) \<and>
   refs_of (VVector [VObjectRef (Shared 7), VObjectRef (Shared 9), VObjectRef (Shared 7)]) ! 0 = refs_of (VVector [VObjectRef (Shared 7), VObjectRef (Shared 9), VObjectRef (Shared 7)]) ! 2 \<and>
   ids_of (fst (PackVisitor_call \<lparr>m_objects = Map.empty\<rparr> (VVector [VObjectRef (Shared 7), VObjectRef (Shared 9), VObjectRef (Shared 7)]))) ! 0 = 7 \<and>
   ids_of (fst (PackVisitor_call \<lparr>m_objects = Map.empty\<rparr> (VVector [VObjectRef (Shared 7), VObjectRef (Shared 9), VObjectRef (Shared 7)]))) ! 2 = 7 \<and>
   objects (snd (PackVisitor_call \<lparr>m_objects = Map.empty\<rparr> (VVector [VObjectRef (Shared 7), VObjectRef (Shared 9), VObjectRef (Shared 7)]))) 7 = Some (Shared 7) \<and>
   (\<exists>v'. unpack (fst (PackVisitor_call \<lparr>m_objects = Map.empty\<rparr> (VVector [VObjectRef (Shared 7), VObjectRef (Shared 9), VObjectRef (Shared 7)])))
            (objects (snd (PackVisitor_call \<lparr>m_objects = Map.empty\<rparr> (VVector [VObjectRef (Shared 7), VObjectRef (Shared 9), VObjectRef (Shared 7)])))) = Inr v' \<and>
          refs_of v' ! 0 = Shared 7 \<and> refs_of v' ! 2 = Shared 7)"
proof -
  have a: "(0::nat) < length (refs_of (VVector [VObjectRef (Shared 7), VObjectRef (Shared 9), VObjectRef (Shared 7)]))"
    and b: "(2::nat) < length (refs_of (VVector [VObjectRef (Shared 7), VObjectRef (Shared 9), VObjectRef (Shared 7)]))"
    and c: "refs_of (VVector [VObjectRef (Shared 7), VObjectRef (Shared 9), VObjectRef (Shared 7)]) ! 0 = refs_of (VVector [VObjectRef (Shared 7), VObjectRef (Shared 9), VObjectRef (Shared 7)]) ! 2"
    by simp_all
  have r: "refs_of (VVector [VObjectRef (Shared 7), VObjectRef (Shared 9), VObjectRef (Shared 7)]) ! 0 = Shared 7" "refs_of (VVector [VObjectRef (Shared 7), VObjectRef (Shared 9), VObjectRef (Shared 7)]) ! 2 = Shared 7"
    by simp_all
  have o: "object_id_ref (Shared 7) = 7"
    by (simp add: object_id_ref_eq)
  from shared_reference_preserved [OF a b c, of "\<lparr>m_objects = Map.empty\<rparr>"]
  have "ids_of (fst (PackVisitor_call \<lparr>m_objects = Map.empty\<rparr> (VVector [VObjectRef (Shared 7), VObjectRef (Shared 9), VObjectRef (Shared 7)]))) ! 0 =
          ids_of (fst (PackVisitor_call \<lparr>m_objects = Map.empty\<rparr> (VVector [VObjectRef (Shared 7), VObjectRef (Shared 9), VObjectRef (Shared 7)]))) ! 2 \<and>
        ids_of (fst (PackVisitor_call \<lparr>m_objects = Map.empty\<rparr> (VVector [VObjectRef (Shared 7), VObjectRef (Shared 9), VObjectRef (Shared 7)]))) ! 0 = 7 \<and>
        objects (snd (PackVisitor_call \<lparr>m_objects = Map.empty\<rparr> (VVector [VObjectRef (Shared 7), VObjectRef (Shared 9), VObjectRef (Shared 7)]))) 7 = Some (Shared 7) \<and>
        (\<exists>v'. unpack (fst (PackVisitor_call \<lparr>m_objects = Map.empty\<rparr> (VVector [VObjectRef (Shared 7), VObjectRef (Shared 9), VObjectRef (Shared 7)])))
            (objects (snd (PackVisitor_call \<lparr>m_objects = Map.empty\<rparr> (VVector [VObjectRef (Shared 7), VObjectRef (Shared 9), VObjectRef (Shared 7)])))) = Inr v' \<and>
          refs_of v' ! 0 = Shared 7 \<and> refs_of v' ! 2 = Shared 7)"
    unfolding r o by auto
  with a b c show ?thesis by auto
qed

text \<open>
  C3. Missing id. When a packed value holds an id for which the table has no entry,
  \<^verbatim>\<open>unpack\<close> fails with \<^verbatim>\<open>UnknownObjectId\<close> and returns no value; so does the \<^verbatim>\<open>unpack\<close> of
  a packed map that holds such a value.
\<close>

theorem unpack_missing_id_fails:
  assumes "k \<in> set (ids_of w)" and "objs k = None"
  shows "unpack w objs = Inl UnknownObjectId \<and>
         ((key, w) \<in> set m \<longrightarrow> unpack_map sl m objs = Inl UnknownObjectId)"
  using assms by (simp add: unpack_def unpack_missing(1) unpack_map_def unpack_entries_missing)

theorem unpack_missing_id_fails_witness:
  "6 \<in> set (ids_of (PVector [PInt 1, PVector [PObjectId 5, PObjectId 6]])) \<and>
   [5 \<mapsto> Shared 5] (6 :: ObjectId) = None \<and>
   unpack (PVector [PInt 1, PVector [PObjectId 5, PObjectId 6]]) [5 \<mapsto> Shared 5] = Inl UnknownObjectId \<and>
   (''c'', PVector [PInt 1, PVector [PObjectId 5, PObjectId 6]]) \<in>
     set [(''a'', PInt 1), (''c'', PVector [PInt 1, PVector [PObjectId 5, PObjectId 6]])] \<and>
   unpack_map front_slot [(''a'', PInt 1), (''c'', PVector [PInt 1, PVector [PObjectId 5, PObjectId 6]])]
     [5 \<mapsto> Shared 5] = Inl UnknownObjectId"
proof -
  have a: "6 \<in> set (ids_of (PVector [PInt 1, PVector [PObjectId 5, PObjectId 6]]))"
    by simp
  have b: "[5 \<mapsto> Shared 5] (6 :: ObjectId) = None"
    by simp
  from unpack_missing_id_fails [where k = 6 and objs = "[5 \<mapsto> Shared 5]"
      and w = "PVector [PInt 1, PVector [PObjectId 5, PObjectId 6]]" and key = "''c''" and sl = front_slot
      and m = "[(''a'', PInt 1), (''c'', PVector [PInt 1, PVector [PObjectId 5, PObjectId 6]])]"] a b
  show ?thesis by simp
qed

text \<open>
  C4. Identity table. After a visitor has packed a value, its table holds every reference
  of the value under the id of the reference, so every id of the packed value has an
  entry; meeting one of these references again changes nothing; and no other entry of
  the table has changed.
\<close>

theorem identity_table_invariant:
  assumes "PackVisitor_call vis v = (w, vis')"
  shows "(\<forall>p \<in> set (refs_of v). objects vis' (object_id_ref p) = Some p) \<and>
         (\<forall>k \<in> set (ids_of w). k \<in> dom (objects vis')) \<and>
         (\<forall>p \<in> set (refs_of v).
            PackVisitor_call vis' (VObjectRef p) = (PObjectId (object_id_ref p), vis')) \<and>
         (\<forall>k. k \<notin> set (ids_of w) \<longrightarrow> objects vis' k = objects vis k)"
proof -
  from assms have w: "w = fst (PackVisitor_call vis v)" and vis': "vis' = snd (PackVisitor_call vis v)"
    by simp_all
  have tab: "objects vis' = record_refs (refs_of v) (objects vis)"
    by (simp add: vis' objects_after_call)
  have ids: "ids_of w = map object_id_ref (refs_of v)"
    by (simp add: w PackVisitor_ids)
  have a: "\<forall>p \<in> set (refs_of v). objects vis' (object_id_ref p) = Some p"
    by (simp add: tab record_refs_member)
  have b: "\<forall>k \<in> set (ids_of w). k \<in> dom (objects vis')"
    using a by (auto simp: ids)
  have c: "\<forall>p \<in> set (refs_of v).
            PackVisitor_call vis' (VObjectRef p) = (PObjectId (object_id_ref p), vis')"
  proof
    fix p
    assume "p \<in> set (refs_of v)"
    with a have "m_objects vis' (object_id_ref p) = Some p"
      by (simp add: objects_def)
    then have "(m_objects vis')(object_id_ref p \<mapsto> p) = m_objects vis'"
      by (rule map_upd_triv)
    then show "PackVisitor_call vis' (VObjectRef p) = (PObjectId (object_id_ref p), vis')"
      by simp
  qed
  have d: "\<forall>k. k \<notin> set (ids_of w) \<longrightarrow> objects vis' k = objects vis k"
    by (simp add: tab ids record_refs_other)
  from a b c d show ?thesis by blast
qed

theorem identity_table_invariant_witness:
  "PackVisitor_call \<lparr>m_objects = Map.empty\<rparr> (VVector [VObjectRef (Shared 7), VObjectRef (Shared 7)]) =
     (PVector [PObjectId 7, PObjectId 7], \<lparr>m_objects = [7 \<mapsto> Shared 7]\<rparr>) \<and>
   objects \<lparr>m_objects = [7 \<mapsto> Shared 7]\<rparr> (object_id_ref (Shared 7)) = Some (Shared 7) \<and>
   7 \<in> dom (objects \<lparr>m_objects = [7 \<mapsto> Shared 7]\<rparr>)"
proof -
  have h: "PackVisitor_call \<lparr>m_objects = Map.empty\<rparr> (VVector [VObjectRef (Shared 7), VObjectRef (Shared 7)]) =
     (PVector [PObjectId 7, PObjectId 7], \<lparr>m_objects = [7 \<mapsto> Shared 7]\<rparr>)"
    by (simp add: object_id_ref_eq)
  from identity_table_invariant [OF h] h show ?thesis
    by simp
qed

text \<open>
  C5, as amended. The packed map lists the keys of the map in the order of the iteration
  over it, and unpacking it with a table that has every id gives a map with exactly
  these keys, each once, wherever the container puts a new entry.
\<close>

theorem map_key_set_preserved:
  assumes "distinct (map fst m)"
    and "\<forall>kv \<in> set (pack_map m). set (ids_of (snd kv)) \<subseteq> dom objs"
  shows "map fst (pack_map m) = map fst m \<and>
         (\<exists>ret. unpack_map sl (pack_map m) objs = Inr ret \<and>
            set (map fst ret) = set (map fst m) \<and> distinct (map fst ret) \<and>
            length ret = length m)"
proof
  show keys: "map fst (pack_map m) = map fst m"
    by (simp add: pack_map_def comp_def)
  from unpack_entries_keys [OF assms(2), of sl "[]"]
  obtain r where r: "unpack_entries sl objs (pack_map m) [] = Inr r"
    "fst ` set r = fst ` set (pack_map m)" "distinct (map fst r)"
    by auto
  have "set (map fst r) = set (map fst (pack_map m))"
    using r(2) by simp
  with keys have s: "set (map fst r) = set (map fst m)" by simp
  have "length (map fst r) = card (set (map fst r))"
    using distinct_card [OF r(3)] by simp
  also from s have "\<dots> = card (set (map fst m))" by simp
  also have "\<dots> = length (map fst m)" by (rule distinct_card [OF assms(1)])
  finally have "length r = length m" by simp
  with r(1) s r(3)
  show "\<exists>ret. unpack_map sl (pack_map m) objs = Inr ret \<and>
            set (map fst ret) = set (map fst m) \<and> distinct (map fst ret) \<and>
            length ret = length m"
    by (simp add: unpack_map_def)
qed

theorem map_key_set_preserved_witness:
  "distinct (map fst [(''a'', VInt 1), (''c'', VObjectRef (Shared 7))]) \<and>
   pack_map [(''a'', VInt 1), (''c'', VObjectRef (Shared 7))] = [(''a'', PInt 1), (''c'', PObjectId 7)] \<and>
   set (ids_of (PInt 1)) \<subseteq> dom [7 \<mapsto> Shared 7] \<and>
   set (ids_of (PObjectId 7)) \<subseteq> dom [7 \<mapsto> Shared 7] \<and>
   (\<exists>ret. unpack_map front_slot [(''a'', PInt 1), (''c'', PObjectId 7)] [7 \<mapsto> Shared 7] = Inr ret \<and>
      set (map fst ret) = {''a'', ''c''} \<and> distinct (map fst ret) \<and> length ret = 2)"
proof -
  have p: "pack_map [(''a'', VInt 1), (''c'', VObjectRef (Shared 7))] = [(''a'', PInt 1), (''c'', PObjectId 7)]"
    by (simp add: pack_map_def pack_def object_id_ref_eq)
  have d: "distinct (map fst [(''a'', VInt 1), (''c'', VObjectRef (Shared 7))])"
    by simp
  have s: "\<forall>kv \<in> set (pack_map [(''a'', VInt 1), (''c'', VObjectRef (Shared 7))]).
             set (ids_of (snd kv)) \<subseteq> dom [7 \<mapsto> Shared 7]"
    by (simp add: p)
  have "\<exists>ret. unpack_map front_slot (pack_map [(''a'', VInt 1), (''c'', VObjectRef (Shared 7))])
            [7 \<mapsto> Shared 7] = Inr ret \<and>
          set (map fst ret) = set (map fst [(''a'', VInt 1), (''c'', VObjectRef (Shared 7))]) \<and>
          distinct (map fst ret) \<and> length ret = length [(''a'', VInt 1), (''c'', VObjectRef (Shared 7))]"
    using map_key_set_preserved [OF d s, of front_slot] by (rule conjunct2)
  then have "\<exists>ret. unpack_map front_slot [(''a'', PInt 1), (''c'', PObjectId 7)] [7 \<mapsto> Shared 7] = Inr ret \<and>
      set (map fst ret) = {''a'', ''c''} \<and> distinct (map fst ret) \<and> length ret = 2"
    by (simp add: p numeral_2_eq_2)
  with p d show ?thesis by simp
qed

text \<open>
  C5 as it is stated fails for the order: in a container that puts a new entry at the
  head of its iteration order, the map that iterates as a, b comes back iterating as
  b, a.
\<close>

theorem map_order_not_preserved:
  "unpack_map front_slot (pack_map [(''a'', VInt 1), (''b'', VInt 2)]) Map.empty =
     Inr [(''b'', VInt 2), (''a'', VInt 1)]"
  by (simp add: unpack_map_def pack_map_def pack_def unpack_def insert_entry_front)

text \<open>
  C6. \<^verbatim>\<open>object_id\<close> is a function of the address alone: the id of a reference is the id
  of the address it holds, the same address always has the same id, and two different
  addresses never have the same id.
\<close>

theorem object_id_injective:
  "object_id_ref r = object_id (get r) \<and>
   (object_id p = object_id q \<longleftrightarrow> p = q) \<and>
   (object_id_ref r = object_id_ref r' \<longleftrightarrow> r = r')"
  by (simp add: object_id_ref_inj) (simp add: object_id_ref_def object_id_def std_hash_def)

text \<open>
  C7. Packing is total and pure. For every live value and every state of the visitor, a
  call of the visitor returns; the packed value is the one the free function \<^verbatim>\<open>pack\<close>
  returns, a function of the live value alone, and the table left is the table before
  with the entries of this value laid over it.
\<close>

theorem pack_total_pure:
  "PackVisitor_call vis v =
     (pack v, \<lparr>m_objects = objects vis ++ objects (snd (PackVisitor_call \<lparr>m_objects = Map.empty\<rparr> v))\<rparr>)"
proof (rule prod_eqI)
  show "fst (PackVisitor_call vis v) =
        fst (pack v, \<lparr>m_objects = objects vis ++ objects (snd (PackVisitor_call \<lparr>m_objects = Map.empty\<rparr> v))\<rparr>)"
    by (simp add: pack_eq_fst)
next
  have "record_refs (refs_of v) (m_objects vis) = m_objects vis ++ record_refs (refs_of v) Map.empty"
    by (rule record_refs_override)
  then show "snd (PackVisitor_call vis v) =
        snd (pack v, \<lparr>m_objects = objects vis ++ objects (snd (PackVisitor_call \<lparr>m_objects = Map.empty\<rparr> v))\<rparr>)"
    by (simp add: PackVisitor_snd objects_def)
qed

text \<open>
  C8. Packing twice. Two visitors, whatever their tables hold, pack the same live value to
  the same packed value, the one \<^verbatim>\<open>pack\<close> returns; the ids in it are those of the
  references of the value, in order, so one object has one id; and two references are
  packed to the same value exactly when they hold the same address.
\<close>

theorem pack_sessions_agree:
  "fst (PackVisitor_call vis1 v) = fst (PackVisitor_call vis2 v) \<and>
   pack v = fst (PackVisitor_call vis1 v) \<and>
   ids_of (pack v) = map object_id_ref (refs_of v) \<and>
   (pack (VObjectRef p) = pack (VObjectRef q) \<longleftrightarrow> get p = get q)"
proof (intro conjI)
  show "fst (PackVisitor_call vis1 v) = fst (PackVisitor_call vis2 v)"
    by (rule PackVisitor_fst_any(1))
  show "pack v = fst (PackVisitor_call vis1 v)"
    by (simp add: pack_eq_fst)
  show "ids_of (pack v) = map object_id_ref (refs_of v)"
    by (simp add: pack_def PackVisitor_ids)
  show "pack (VObjectRef p) = pack (VObjectRef q) \<longleftrightarrow> get p = get q"
    by (simp add: pack_def object_id_ref_eq Let_def)
qed

text \<open>
  C9, as amended. A caller that applies a visitor of its own has the packed value and,
  in that visitor, the table with the references of the value entered. The free
  functions \<^verbatim>\<open>pack(const Variant &)\<close> and \<^verbatim>\<open>pack(const VariantMap &)\<close> return the packed
  value alone and leave the visitors of the caller as they were.
\<close>

theorem table_on_callers_visitor:
  "(\<exists>vis'. PackVisitor_call vis v = (pack v, vis') \<and>
      objects vis' = record_refs (refs_of v) (objects vis)) \<and>
   pack_call v st = (pack v, st) \<and>
   pack_map_call m st = (pack_map m, st)"
proof (intro conjI)
  have "PackVisitor_call vis v = (pack v, snd (PackVisitor_call vis v))"
    by (rule prod_eqI) (simp_all add: pack_eq_fst)
  then show "\<exists>vis'. PackVisitor_call vis v = (pack v, vis') \<and>
      objects vis' = record_refs (refs_of v) (objects vis)"
    using objects_after_call by blast
  show "pack_call v st = (pack v, st)"
    by (rule pack_call_eq)
  show "pack_map_call m st = (pack_map m, st)"
    by (rule pack_map_call_eq)
qed

text \<open>
  C9 as it is stated fails for the free functions: the pack of a reference enters it in
  the table of the temporary visitor, and the caller is left with the id and with no
  visitor to ask for the table.
\<close>

theorem pack_leaves_no_visitor:
  "pack_call (VObjectRef (Shared 1)) [] = (PObjectId 1, []) \<and>
   objects (snd (PackVisitor_call \<lparr>m_objects = Map.empty\<rparr> (VObjectRef (Shared 1)))) 1 = Some (Shared 1) \<and>
   pack_map_call [(''c'', VObjectRef (Shared 1))] [] = ([(''c'', PObjectId 1)], [])"
  by (simp add: pack_call_def objects_def object_id_ref_eq)

text \<open>
  C10. The loop of \<^verbatim>\<open>evaluate\<close> divides a bin by its count when the count is positive and
  leaves a bin with count zero as it is: the result does not depend on what a division
  by a zero count would give.
\<close>

theorem zero_count_bins_unchanged:
  assumes "length tot_count = length hist_tmp"
  shows "evaluate fdiv hist_tmp tot_count =
           Some (map (\<lambda>(x, c). if 0 < c then fdiv x c else x) (zip hist_tmp tot_count)) \<and>
         ((\<forall>x c. 0 < c \<longrightarrow> fdiv' x c = fdiv x c) \<longrightarrow>
            evaluate fdiv' hist_tmp tot_count = evaluate fdiv hist_tmp tot_count)"
proof (intro conjI impI)
  show e: "evaluate fdiv hist_tmp tot_count =
           Some (map (\<lambda>(x, c). if 0 < c then fdiv x c else x) (zip hist_tmp tot_count))" for fdiv
    using assms by (simp add: evaluate_def evaluate_loop_eq)
  assume "\<forall>x c. 0 < c \<longrightarrow> fdiv' x c = fdiv x c"
  then have "(\<lambda>(x, c). if 0 < c then fdiv' x c else x) = (\<lambda>(x, c). if 0 < c then fdiv x c else x)"
    by (auto simp: fun_eq_iff)
  then show "evaluate fdiv' hist_tmp tot_count = evaluate fdiv hist_tmp tot_count"
    by (simp add: e)
qed

text \<open>
  An instance with three bins, the second with count zero; the division of machine words
  stands in for the division of doubles.
\<close>

theorem zero_count_bins_unchanged_witness:
  "length [2, 0, 5 :: nat] = length [10, 20, 30 :: double] \<and>
   evaluate (\<lambda>x c. x div of_nat c) [10, 20, 30] [2, 0, 5] = Some [5, 20, 6] \<and>
   evaluate (\<lambda>x c. if c = 0 then 7 else x div of_nat c) [10, 20, 30] [2, 0, 5] =
     evaluate (\<lambda>x c. x div of_nat c) [10, 20, 30] [2, 0, 5]"
proof -
  have l: "length [2, 0, 5 :: nat] = length [10, 20, 30 :: double]"
    by simp
  have f: "\<forall>x c. 0 < c \<longrightarrow> (if c = 0 then 7 else x div of_nat c) = x div (of_nat c :: double)"
    by simp
  from zero_count_bins_unchanged [OF l, of "\<lambda>x c. x div of_nat c" "\<lambda>x c. if c = 0 then 7 else x div of_nat c"] l f
  show ?thesis by simp
qed

end
